theory Spec2Isabelle
  imports Main "HOL-Library.Sublist"
begin

section \<open>Paths: the functions of Go's path/filepath that the manager calls\<close>

text \<open>
  The symlink manager (internal/symlink/manager.go) computes with paths through
  \<open>filepath.IsAbs\<close>, \<open>filepath.Clean\<close>, \<open>filepath.Dir\<close>, \<open>filepath.Join\<close> and
  \<open>filepath.Rel\<close>. They belong to the Go standard library, not to the repository, and are
  modelled here on Unix paths (separator \<open>/\<close>, no volume names), following the rules
  their documentation states. A Go string is a byte sequence: \<open>string\<close>.
\<close>

text \<open>\<open>strings.Split(s, "/")\<close>: the pieces between separators; never the empty list.\<close>

fun split_sep :: "string \<Rightarrow> string list" where
  "split_sep [] = [[]]"
| "split_sep (c # cs) =
     (if c = CHR ''/'' then [] # split_sep cs
      else (case split_sep cs of [] \<Rightarrow> [[c]] | x # xs \<Rightarrow> (c # x) # xs))"

text \<open>\<open>strings.Join(elems, "/")\<close>.\<close>

fun join_sep :: "string list \<Rightarrow> string" where
  "join_sep [] = []"
| "join_sep [e] = e"
| "join_sep (e # es) = e @ CHR ''/'' # join_sep es"

text \<open>The path name elements that matter to \<open>Clean\<close>: empty elements (repeated
  separators) and \<open>.\<close> elements are dropped.\<close>

definition elems :: "string \<Rightarrow> string list" where
  "elems p = filter (\<lambda>e. e \<noteq> [] \<and> e \<noteq> ''.'') (split_sep p)"

text \<open>\<open>filepath.IsAbs\<close> on Unix: the path starts with a separator.\<close>

definition IsAbs :: "string \<Rightarrow> bool" where
  "IsAbs p = (case p of [] \<Rightarrow> False | c # _ \<Rightarrow> c = CHR ''/'')"

text \<open>
  The \<open>..\<close> rules of \<open>Clean\<close>, on a stack of the elements kept so far (most recent
  first): an inner \<open>..\<close> removes the element before it unless that is itself \<open>..\<close>; a
  \<open>..\<close> at the start of a rooted path disappears; one at the start of a relative path
  stays.
\<close>

fun clean_elems :: "bool \<Rightarrow> string list \<Rightarrow> string list \<Rightarrow> string list" where
  "clean_elems rooted acc [] = rev acc"
| "clean_elems rooted acc (e # es) =
     (if e = ''..'' then
        (case acc of
           [] \<Rightarrow> if rooted then clean_elems rooted [] es else clean_elems rooted [''..''] es
         | a # acc' \<Rightarrow>
             if a = ''..'' then clean_elems rooted (''..'' # acc) es
             else clean_elems rooted acc' es)
      else clean_elems rooted (e # acc) es)"

text \<open>\<open>filepath.Clean\<close>: the shortest equivalent path by lexical processing; a rooted
  path stays rooted, and the empty result of a relative path is \<open>.\<close>.\<close>

definition Clean :: "string \<Rightarrow> string" where
  "Clean p =
     (let es = clean_elems (IsAbs p) [] (elems p) in
      if IsAbs p then CHR ''/'' # join_sep es
      else if es = [] then ''.'' else join_sep es)"

text \<open>\<open>filepath.Dir\<close>: everything up to and including the last separator, cleaned.\<close>

definition Dir :: "string \<Rightarrow> string" where
  "Dir p = Clean (rev (dropWhile (\<lambda>c. c \<noteq> CHR ''/'') (rev p)))"

text \<open>\<open>filepath.Join\<close>: leading empty elements are ignored, the rest is joined with
  separators and cleaned; the result is empty when every element is.\<close>

fun Join :: "string list \<Rightarrow> string" where
  "Join [] = []"
| "Join (e # es) = (if e \<noteq> [] then Clean (join_sep (e # es)) else Join es)"

text \<open>
  \<open>filepath.Rel(basepath, targpath)\<close>. Both paths are cleaned; equal paths give \<open>.\<close>;
  a rooted and a relative path cannot be related; otherwise the common leading elements
  are dropped, every element left of the base becomes \<open>..\<close> and the elements left of
  the target follow. The library walks the two cleaned strings element by element and
  refuses when the first element of the base that differs from the target's is \<open>..\<close>.
\<close>

fun strip_common :: "string list \<Rightarrow> string list \<Rightarrow> string list \<times> string list" where
  "strip_common (b # bs) (t # ts) =
     (if b = t then strip_common bs ts else (b # bs, t # ts))"
| "strip_common bs ts = (bs, ts)"

definition rel_elems :: "string \<Rightarrow> string list" where
  "rel_elems p = filter (\<lambda>e. e \<noteq> []) (split_sep p)"

definition Rel :: "string \<Rightarrow> string \<Rightarrow> string option" where
  "Rel basepath targpath =
     (let base = Clean basepath; targ = Clean targpath in
      if targ = base then Some ''.''
      else
        let base' = (if base = ''.'' then [] else base) in
        if IsAbs base' \<noteq> IsAbs targ then None
        else
          (case strip_common (rel_elems base') (rel_elems targ) of
             (bs, ts) \<Rightarrow>
               if bs \<noteq> [] \<and> ts \<noteq> [] \<and> hd bs = ''..'' then None
               else if bs \<noteq> [] then Some (join_sep (replicate (length bs) ''..'' @ ts))
               else Some (join_sep ts)))"

section \<open>The filesystem and the calls of package os\<close>

text \<open>
  The manager acts on the filesystem through \<open>os.Lstat\<close>, \<open>os.Readlink\<close>,
  \<open>os.Remove\<close>, \<open>os.RemoveAll\<close>, \<open>os.MkdirAll\<close> and \<open>os.Symlink\<close>. The model of
  the filesystem is a table from locations to entries. A location is the list of names
  that leads from the root directory to the entry; the root always exists and is not
  stored. A path is not a location: the calls resolve a path as the kernel does, name by
  name, from the root or from the working directory, following every symbolic link that
  stands in the middle of the path, and going to the parent directory at a \<open>..\<close>.

  A call can also fail for reasons outside the table (permissions, a device error). The
  state carries a schedule of such failures: every call of package os consumes the head of
  \<open>faults\<close>, and fails with \<open>EIO\<close>, changing nothing, when the head is \<open>True\<close>. An
  empty schedule means no further failure.
\<close>

datatype node = File string | Directory | Symlink string | Special

datatype errno = ENOENT | ENOTDIR | EEXIST | ENOTEMPTY | EINVAL | EBUSY | ELOOP | EIO

type_synonym key = "string list"

record fsys =
  entries :: "(key \<times> node) list"
  cwd :: key
  faults :: "bool list"

definition node_at :: "(key \<times> node) list \<Rightarrow> key \<Rightarrow> node option" where
  "node_at es k = (if k = [] then Some Directory else map_of es k)"

text \<open>
  Path resolution. \<open>walk fuel es follow cur names\<close> starts in the directory at location
  \<open>cur\<close> and consumes the names of the path. Empty names (repeated or trailing separators)
  and \<open>.\<close> stay in the directory, \<open>..\<close> goes to the parent. A symbolic link is followed
  when names remain after it, or when \<open>follow\<close> is set; its target is resolved from the
  root when it is absolute and from the directory of the link otherwise. A symbolic link at
  the last name is the result itself when \<open>follow\<close> is not set (\<open>lstat\<close>, \<open>readlink\<close>,
  \<open>unlink\<close>, \<open>symlink\<close>). The last name may be missing: the result is then the location
  where the entry would be. \<open>fuel\<close> bounds the number of links followed (\<open>ELOOP\<close>).
\<close>

fun walk :: "nat \<Rightarrow> (key \<times> node) list \<Rightarrow> bool \<Rightarrow> key \<Rightarrow> string list \<Rightarrow> errno + key" where
  "walk fuel es follow cur [] = Inr cur"
| "walk fuel es follow cur (c # cs) =
     (case node_at es cur of
        None \<Rightarrow> Inl ENOENT
      | Some Directory \<Rightarrow>
          if c = [] \<or> c = ''.'' then walk fuel es follow cur cs
          else if c = ''..'' then walk fuel es follow (butlast cur) cs
          else
            (case node_at es (cur @ [c]) of
               None \<Rightarrow> if cs = [] then Inr (cur @ [c]) else Inl ENOENT
             | Some (Symlink t) \<Rightarrow>
                 if cs = [] \<and> \<not> follow then Inr (cur @ [c])
                 else if fuel = 0 then Inl ELOOP
                 else if t = [] then Inl ENOENT
                 else walk (fuel - 1) es follow (if IsAbs t then [] else cur) (split_sep t @ cs)
             | Some Directory \<Rightarrow> walk fuel es follow (cur @ [c]) cs
             | Some _ \<Rightarrow> if cs = [] then Inr (cur @ [c]) else Inl ENOTDIR)
      | Some _ \<Rightarrow> Inl ENOTDIR)"

declare walk.simps [simp del]

definition max_links :: nat where
  "max_links = 40"

text \<open>The location a path names: the empty path names nothing.\<close>

definition locate :: "fsys \<Rightarrow> bool \<Rightarrow> string \<Rightarrow> errno + key" where
  "locate s follow p =
     (if p = [] then Inl ENOENT
      else walk max_links (entries s) follow (if IsAbs p then [] else cwd s) (split_sep p))"

definition io_fault :: "fsys \<Rightarrow> bool \<times> fsys" where
  "io_fault s = (case faults s of [] \<Rightarrow> (False, s) | f # fs \<Rightarrow> (f, s\<lparr>faults := fs\<rparr>))"

text \<open>The entry a path names, when the path is resolved without following a final
  symbolic link: what \<open>lstat\<close> finds.\<close>

definition entry_at :: "fsys \<Rightarrow> string \<Rightarrow> errno + node" where
  "entry_at s p =
     (case locate s False p of
        Inl e \<Rightarrow> Inl e
      | Inr k \<Rightarrow> (case node_at (entries s) k of None \<Rightarrow> Inl ENOENT | Some n \<Rightarrow> Inr n))"

text \<open>\<open>os.Lstat\<close>: the entry itself, a final symbolic link is not followed. The
  \<open>FileInfo\<close> it returns is modelled by the entry; \<open>ModeSymlink\<close> and \<open>IsRegular\<close> read
  its mode.\<close>

definition os_Lstat :: "string \<Rightarrow> fsys \<Rightarrow> (errno + node) \<times> fsys" where
  "os_Lstat p s =
     (case io_fault s of
        (True, s') \<Rightarrow> (Inl EIO, s')
      | (False, s') \<Rightarrow> (entry_at s' p, s'))"

definition ModeSymlink :: "node \<Rightarrow> bool" where
  "ModeSymlink n = (case n of Symlink t \<Rightarrow> True | _ \<Rightarrow> False)"

definition IsRegular :: "node \<Rightarrow> bool" where
  "IsRegular n = (case n of File c \<Rightarrow> True | _ \<Rightarrow> False)"

definition os_IsNotExist :: "errno \<Rightarrow> bool" where
  "os_IsNotExist e = (e = ENOENT)"

text \<open>\<open>os.Readlink\<close>: the target string stored in a symbolic link.\<close>

definition os_Readlink :: "string \<Rightarrow> fsys \<Rightarrow> (errno + string) \<times> fsys" where
  "os_Readlink p s =
     (case io_fault s of
        (True, s') \<Rightarrow> (Inl EIO, s')
      | (False, s') \<Rightarrow>
          (case entry_at s' p of
             Inl e \<Rightarrow> (Inl e, s')
           | Inr (Symlink t) \<Rightarrow> (Inr t, s')
           | Inr _ \<Rightarrow> (Inl EINVAL, s')))"

definition has_children :: "(key \<times> node) list \<Rightarrow> key \<Rightarrow> bool" where
  "has_children es k = (filter (\<lambda>(k', n). strict_prefix k k') es \<noteq> [])"

definition remove_key :: "key \<Rightarrow> (key \<times> node) list \<Rightarrow> (key \<times> node) list" where
  "remove_key k es = filter (\<lambda>(k', n). k' \<noteq> k) es"

definition remove_tree :: "key \<Rightarrow> (key \<times> node) list \<Rightarrow> (key \<times> node) list" where
  "remove_tree k es = filter (\<lambda>(k', n). \<not> prefix k k') es"

text \<open>\<open>os.Remove\<close> (\<open>unlink\<close>, then \<open>rmdir\<close>): removes a file, a symbolic link (not
  what it points to) or an empty directory. A path whose last name is \<open>.\<close> or \<open>..\<close>
  is refused, as \<open>rmdir\<close> does.\<close>

definition os_Remove :: "string \<Rightarrow> fsys \<Rightarrow> errno option \<times> fsys" where
  "os_Remove p s =
     (case io_fault s of
        (True, s') \<Rightarrow> (Some EIO, s')
      | (False, s') \<Rightarrow>
          (case locate s' False p of
             Inl e \<Rightarrow> (Some e, s')
           | Inr k \<Rightarrow>
               (case node_at (entries s') k of
                  None \<Rightarrow> (Some ENOENT, s')
                | Some n \<Rightarrow>
                    if last (split_sep p) = ''.'' then (Some EINVAL, s')
                    else if last (split_sep p) = ''..'' then (Some ENOTEMPTY, s')
                    else if k = [] then (Some EBUSY, s')
                    else if n = Directory \<and> has_children (entries s') k
                      then (Some ENOTEMPTY, s')
                    else (None, s'\<lparr>entries := remove_key k (entries s')\<rparr>))))"

text \<open>\<open>os.RemoveAll\<close>: removes the entry and everything below it; a symbolic link is
  removed itself, what it points to stays. A path that does not exist is no error; a path
  that ends in \<open>.\<close> is refused; trailing separators are dropped before the entry is
  looked up in its parent directory.\<close>

definition endsWithDot :: "string \<Rightarrow> bool" where
  "endsWithDot p = (p = ''.'' \<or> (length p \<ge> 2 \<and> take 2 (rev p) = ''./''))"

definition strip_slashes :: "string \<Rightarrow> string" where
  "strip_slashes p =
     (let q = rev (dropWhile (\<lambda>c. c = CHR ''/'') (rev p)) in
      if q = [] \<and> p \<noteq> [] then ''/'' else q)"

definition os_RemoveAll :: "string \<Rightarrow> fsys \<Rightarrow> errno option \<times> fsys" where
  "os_RemoveAll p s =
     (case io_fault s of
        (True, s') \<Rightarrow> (Some EIO, s')
      | (False, s') \<Rightarrow>
          if p = [] then (None, s')
          else if endsWithDot p then (Some EINVAL, s')
          else if last (split_sep (strip_slashes p)) = ''..'' then (Some EINVAL, s')
          else
            (case locate s' False (strip_slashes p) of
               Inl e \<Rightarrow> (if e = ENOENT then (None, s') else (Some e, s'))
             | Inr k \<Rightarrow>
                 if node_at (entries s') k = None then (None, s')
                 else if k = [] then (Some EBUSY, s'\<lparr>entries := []\<rparr>)
                 else (None, s'\<lparr>entries := remove_tree k (entries s')\<rparr>)))"

text \<open>
  \<open>os.MkdirAll\<close>: creates the directory and every missing parent, name by name; an
  existing directory is no error, and a symbolic link that leads to a directory is
  followed. A name that is taken by anything else stops the call with an error; the
  directories created before stay. \<open>mkdir_walk\<close> returns the error, if any, and the table.
\<close>

fun mkdir_walk :: "(key \<times> node) list \<Rightarrow> key \<Rightarrow> string list \<Rightarrow> errno option \<times> (key \<times> node) list" where
  "mkdir_walk es cur [] = (None, es)"
| "mkdir_walk es cur (c # cs) =
     (case node_at es cur of
        None \<Rightarrow> (Some ENOENT, es)
      | Some Directory \<Rightarrow>
          if c = [] \<or> c = ''.'' then mkdir_walk es cur cs
          else if c = ''..'' then mkdir_walk es (butlast cur) cs
          else
            (case node_at es (cur @ [c]) of
               None \<Rightarrow> mkdir_walk (es @ [(cur @ [c], Directory)]) (cur @ [c]) cs
             | Some Directory \<Rightarrow> mkdir_walk es (cur @ [c]) cs
             | Some (Symlink t) \<Rightarrow>
                 (if t = [] then (Some EEXIST, es)
                  else
                    (case walk max_links es True (if IsAbs t then [] else cur) (split_sep t) of
                       Inl e \<Rightarrow> (Some EEXIST, es)
                     | Inr k \<Rightarrow>
                         (case node_at es k of
                            None \<Rightarrow> (Some EEXIST, es)
                          | Some Directory \<Rightarrow> mkdir_walk es k cs
                          | Some _ \<Rightarrow> (Some ENOTDIR, es))))
             | Some _ \<Rightarrow> (Some ENOTDIR, es))
      | Some _ \<Rightarrow> (Some ENOTDIR, es))"

declare mkdir_walk.simps [simp del]

definition os_MkdirAll :: "string \<Rightarrow> fsys \<Rightarrow> errno option \<times> fsys" where
  "os_MkdirAll p s =
     (case io_fault s of
        (True, s') \<Rightarrow> (Some EIO, s')
      | (False, s') \<Rightarrow>
          if p = [] then (Some ENOENT, s')
          else
            (case mkdir_walk (entries s') (if IsAbs p then [] else cwd s') (split_sep p) of
               (r, es) \<Rightarrow> (r, s'\<lparr>entries := es\<rparr>)))"

text \<open>\<open>os.Symlink(oldname, newname)\<close>: creates \<open>newname\<close> as a symbolic link that
  stores \<open>oldname\<close>; fails when \<open>newname\<close> exists, also as a symbolic link.\<close>

definition os_Symlink :: "string \<Rightarrow> string \<Rightarrow> fsys \<Rightarrow> errno option \<times> fsys" where
  "os_Symlink oldname newname s =
     (case io_fault s of
        (True, s') \<Rightarrow> (Some EIO, s')
      | (False, s') \<Rightarrow>
          if oldname = [] then (Some ENOENT, s')
          else
            (case locate s' False newname of
               Inl e \<Rightarrow> (Some e, s')
             | Inr k \<Rightarrow>
                 if node_at (entries s') k \<noteq> None then (Some EEXIST, s')
                 else (None, s'\<lparr>entries := (k, Symlink oldname) # entries s'\<rparr>)))"

section \<open>The symlink manager (internal/symlink/manager.go)\<close>

datatype LinkStatus =
  StatusOK | StatusMissing | StatusWrongTarget | StatusNotSymlink | StatusBroken

record LinkInfo =
  Path :: string
  Target :: string
  ExpectedPath :: string
  Status :: LinkStatus
  Error :: "errno option"

record Manager =
  dryRun :: bool
  force :: bool
  verbose :: bool

definition NewManager :: "bool \<Rightarrow> bool \<Rightarrow> bool \<Rightarrow> Manager" where
  "NewManager d f v = \<lparr>dryRun = d, force = f, verbose = v\<rparr>"

text \<open>The errors the manager and the commands build with \<open>fmt.Errorf\<close>, one constructor
  for each message, with the values the message is formatted from.\<close>

datatype error =
    SourceNotExist string
  | SourceStatFailed string errno
  | SourceIsSymlink string
  | SourceNotRegular string
  | ParentDirFailed string errno
  | RelFailed
  | SymlinkFailed string string errno
  | RemoveSymlinkFailed string errno
  | WrongTargetConflict string string string
  | RemoveWrongFailed string errno
  | NotSymlinkConflict string
  | RemoveExistingFailed string errno
  | RemoveBrokenFailed string errno
  | SyncCompletedWithErrors
  | ConfigurationHasProblems

text \<open>\<open>ValidateSource\<close>: the source must exist; a symbolic link is refused unless
  \<open>force\<close> is set; anything that is neither a regular file nor a symbolic link is refused.\<close>

definition ValidateSource :: "Manager \<Rightarrow> string \<Rightarrow> fsys \<Rightarrow> error option \<times> fsys" where
  "ValidateSource m sourcePath s =
     (case os_Lstat sourcePath s of
        (Inl err, s') \<Rightarrow>
          if os_IsNotExist err then (Some (SourceNotExist sourcePath), s')
          else (Some (SourceStatFailed sourcePath err), s')
      | (Inr info, s') \<Rightarrow>
          if ModeSymlink info \<and> \<not> force m then (Some (SourceIsSymlink sourcePath), s')
          else if \<not> IsRegular info \<and> \<not> ModeSymlink info
            then (Some (SourceNotRegular sourcePath), s')
          else (None, s'))"

text \<open>\<open>CheckLink\<close>. The fields of the result start at Go's zero values: an empty
  target, status \<open>StatusOK\<close> (the first constant), no error.\<close>

definition CheckLink :: "Manager \<Rightarrow> string \<Rightarrow> string \<Rightarrow> fsys \<Rightarrow> LinkInfo \<times> fsys" where
  "CheckLink m linkPath expectedTarget s =
     (let info = \<lparr>Path = linkPath, Target = [], ExpectedPath = expectedTarget,
                  Status = StatusOK, Error = None\<rparr> in
      case os_Lstat linkPath s of
        (Inl err, s1) \<Rightarrow>
          if os_IsNotExist err then (info\<lparr>Status := StatusMissing\<rparr>, s1)
          else (info\<lparr>Error := Some err, Status := StatusBroken\<rparr>, s1)
      | (Inr linkInfo, s1) \<Rightarrow>
          if \<not> ModeSymlink linkInfo then (info\<lparr>Status := StatusNotSymlink\<rparr>, s1)
          else
            (case os_Readlink linkPath s1 of
               (Inl err, s2) \<Rightarrow> (info\<lparr>Error := Some err, Status := StatusBroken\<rparr>, s2)
             | (Inr target, s2) \<Rightarrow>
                 (let info = info\<lparr>Target := target\<rparr>;
                      target = (if \<not> IsAbs target then Join [Dir linkPath, target] else target);
                      target = Clean target;
                      expectedClean = Clean expectedTarget
                  in if target = expectedClean then (info\<lparr>Status := StatusOK\<rparr>, s2)
                     else (info\<lparr>Status := StatusWrongTarget\<rparr>, s2))))"

text \<open>\<open>CreateLink\<close>: nothing in dry-run mode; otherwise the parent directory is created,
  the target is made relative to it, and the link is created.\<close>

definition CreateLink :: "Manager \<Rightarrow> string \<Rightarrow> string \<Rightarrow> fsys \<Rightarrow> error option \<times> fsys" where
  "CreateLink m linkPath targetPath s =
     (if dryRun m then (None, s)
      else
        (case os_MkdirAll (Dir linkPath) s of
           (Some err, s1) \<Rightarrow> (Some (ParentDirFailed linkPath err), s1)
         | (None, s1) \<Rightarrow>
             (case Rel (Dir linkPath) targetPath of
                None \<Rightarrow> (Some RelFailed, s1)
              | Some relTarget \<Rightarrow>
                  (case os_Symlink relTarget linkPath s1 of
                     (Some err, s2) \<Rightarrow> (Some (SymlinkFailed linkPath relTarget err), s2)
                   | (None, s2) \<Rightarrow> (None, s2)))))"

text \<open>\<open>RemoveLink\<close>: nothing in dry-run mode; otherwise the link is removed when
  \<open>CheckLink\<close> classifies it as \<open>StatusOK\<close>.\<close>

definition RemoveLink :: "Manager \<Rightarrow> string \<Rightarrow> string \<Rightarrow> fsys \<Rightarrow> error option \<times> fsys" where
  "RemoveLink m linkPath expectedTarget s =
     (if dryRun m then (None, s)
      else
        (case CheckLink m linkPath expectedTarget s of
           (info, s1) \<Rightarrow>
             if Status info = StatusOK then
               (case os_Remove linkPath s1 of
                  (Some err, s2) \<Rightarrow> (Some (RemoveSymlinkFailed linkPath err), s2)
                | (None, s2) \<Rightarrow> (None, s2))
             else (None, s1)))"

text \<open>\<open>FixLink\<close>: the switch over the status of \<open>CheckLink\<close>. The \<open>default\<close> branch
  of the source cannot be reached: \<open>CheckLink\<close> produces the five constants only.\<close>

definition FixLink :: "Manager \<Rightarrow> string \<Rightarrow> string \<Rightarrow> fsys \<Rightarrow> (error + string) \<times> fsys" where
  "FixLink m linkPath targetPath s =
     (case CheckLink m linkPath targetPath s of
        (info, s1) \<Rightarrow>
          (case Status info of
             StatusOK \<Rightarrow> (Inr ''skip'', s1)
           | StatusMissing \<Rightarrow>
               (case CreateLink m linkPath targetPath s1 of
                  (Some err, s2) \<Rightarrow> (Inl err, s2)
                | (None, s2) \<Rightarrow> (Inr ''create'', s2))
           | StatusWrongTarget \<Rightarrow>
               if \<not> force m
                 then (Inl (WrongTargetConflict linkPath (Target info) targetPath), s1)
               else
                 (case os_Remove linkPath s1 of
                    (Some err, s2) \<Rightarrow> (Inl (RemoveWrongFailed linkPath err), s2)
                  | (None, s2) \<Rightarrow>
                      (case CreateLink m linkPath targetPath s2 of
                         (Some err, s3) \<Rightarrow> (Inl err, s3)
                       | (None, s3) \<Rightarrow> (Inr ''fix'', s3)))
           | StatusNotSymlink \<Rightarrow>
               if \<not> force m then (Inl (NotSymlinkConflict linkPath), s1)
               else
                 (case os_RemoveAll linkPath s1 of
                    (Some err, s2) \<Rightarrow> (Inl (RemoveExistingFailed linkPath err), s2)
                  | (None, s2) \<Rightarrow>
                      (case CreateLink m linkPath targetPath s2 of
                         (Some err, s3) \<Rightarrow> (Inl err, s3)
                       | (None, s3) \<Rightarrow> (Inr ''replace'', s3)))
           | StatusBroken \<Rightarrow>
               (case os_Remove linkPath s1 of
                  (Some err, s2) \<Rightarrow> (Inl (RemoveBrokenFailed linkPath err), s2)
                | (None, s2) \<Rightarrow>
                    (case CreateLink m linkPath targetPath s2 of
                       (Some err, s3) \<Rightarrow> (Inl err, s3)
                     | (None, s3) \<Rightarrow> (Inr ''fix broken'', s3)))))"

section \<open>The commands sync and check (internal/cli)\<close>

text \<open>
  \<open>runSync\<close> and \<open>runCheck\<close> first find and load the configuration (package config,
  a YAML file). The model starts where the configuration is loaded: from the creation of
  the manager on. The package variables \<open>dryRun\<close>, \<open>force\<close> and \<open>verbose\<close> that the
  command-line flags set are the record \<open>Flags\<close>; what the commands print is returned
  as a list, one constructor for each print statement.
\<close>

record Config =
  Source :: string
  Links :: "string list"

record Flags =
  dryRun_flag :: bool
  force_flag :: bool
  verbose_flag :: bool

datatype link_line =
    Line_OK string
  | Line_Missing
  | Line_WrongTarget string string
  | Line_NotSymlink
  | Line_Broken "errno option"

datatype out =
    PrintError_SourceValidation error
  | PrintOK_Source string
  | PrintInfo_Processing string
  | PrintError_FailedToProcess string error
  | PrintSkip string string
  | PrintCreate string string
  | PrintOK_Fixed string string
  | PrintOK_Replaced string string
  | PrintOK_FixedBroken string string
  | PrintInfo_DryRunCompleted
  | Print_SourceStatus string "error option"
  | Print_LinksHeader
  | Print_Link nat string link_line
  | Print_FoundProblems
  | Print_AllCorrect

definition action_out :: "Flags \<Rightarrow> string \<Rightarrow> string \<Rightarrow> string \<Rightarrow> out list" where
  "action_out fl action linkPath sourcePath =
     (if action = ''skip'' then
        (if verbose_flag fl then [PrintSkip linkPath sourcePath] else [])
      else if action = ''create'' then [PrintCreate linkPath sourcePath]
      else if action = ''fix'' then [PrintOK_Fixed linkPath sourcePath]
      else if action = ''replace'' then [PrintOK_Replaced linkPath sourcePath]
      else if action = ''fix broken'' then [PrintOK_FixedBroken linkPath sourcePath]
      else [])"

definition processLink ::
  "Flags \<Rightarrow> Manager \<Rightarrow> string \<Rightarrow> string \<Rightarrow> fsys \<Rightarrow> error option \<times> out list \<times> fsys" where
  "processLink fl manager linkPath sourcePath s =
     (let o1 = (if verbose_flag fl then [PrintInfo_Processing linkPath] else []) in
      case FixLink manager linkPath sourcePath s of
        (Inl err, s') \<Rightarrow> (Some err, o1, s')
      | (Inr action, s') \<Rightarrow> (None, o1 @ action_out fl action linkPath sourcePath, s'))"

text \<open>The loop of \<open>runSync\<close> over \<open>cfg.Links\<close>, with its flag \<open>hasErrors\<close>.\<close>

fun sync_links ::
  "Flags \<Rightarrow> Manager \<Rightarrow> string \<Rightarrow> string list \<Rightarrow> bool \<Rightarrow> fsys \<Rightarrow> bool \<times> out list \<times> fsys" where
  "sync_links fl manager src [] hasErrors s = (hasErrors, [], s)"
| "sync_links fl manager src (linkPath # rest) hasErrors s =
     (case processLink fl manager linkPath src s of
        (Some err, o1, s1) \<Rightarrow>
          (case sync_links fl manager src rest True s1 of
             (h, o2, s2) \<Rightarrow> (h, o1 @ [PrintError_FailedToProcess linkPath err] @ o2, s2))
      | (None, o1, s1) \<Rightarrow>
          (case sync_links fl manager src rest hasErrors s1 of
             (h, o2, s2) \<Rightarrow> (h, o1 @ o2, s2)))"

definition runSync :: "Flags \<Rightarrow> Config \<Rightarrow> fsys \<Rightarrow> error option \<times> out list \<times> fsys" where
  "runSync fl cfg s =
     (let manager = NewManager (dryRun_flag fl) (force_flag fl) (verbose_flag fl) in
      case ValidateSource manager (Source cfg) s of
        (Some err, s1) \<Rightarrow> (Some err, [PrintError_SourceValidation err], s1)
      | (None, s1) \<Rightarrow>
          (case sync_links fl manager (Source cfg) (Links cfg) False s1 of
             (hasErrors, o2, s2) \<Rightarrow>
               if hasErrors
                 then (Some SyncCompletedWithErrors, PrintOK_Source (Source cfg) # o2, s2)
               else
                 (None,
                  PrintOK_Source (Source cfg) # o2 @
                    (if dryRun_flag fl then [PrintInfo_DryRunCompleted] else []),
                  s2)))"

text \<open>The two loops of \<open>runCheck\<close>: the widest link path, for the layout, and the
  classification and the printed line of every link.\<close>

fun maxPathLen :: "string list \<Rightarrow> nat \<Rightarrow> nat" where
  "maxPathLen [] n = n"
| "maxPathLen (linkPath # rest) n =
     maxPathLen rest (if length linkPath > n then length linkPath else n)"

definition line_of :: "LinkInfo \<Rightarrow> string \<Rightarrow> link_line" where
  "line_of info src =
     (case Status info of
        StatusOK \<Rightarrow> Line_OK src
      | StatusMissing \<Rightarrow> Line_Missing
      | StatusWrongTarget \<Rightarrow> Line_WrongTarget (Target info) src
      | StatusNotSymlink \<Rightarrow> Line_NotSymlink
      | StatusBroken \<Rightarrow> Line_Broken (Error info))"

fun check_links ::
  "Manager \<Rightarrow> nat \<Rightarrow> string \<Rightarrow> string list \<Rightarrow> bool \<Rightarrow> fsys \<Rightarrow> bool \<times> out list \<times> fsys" where
  "check_links manager w src [] hasProblems s = (hasProblems, [], s)"
| "check_links manager w src (linkPath # rest) hasProblems s =
     (case CheckLink manager linkPath src s of
        (info, s1) \<Rightarrow>
          (case check_links manager w src rest
                  (if Status info \<noteq> StatusOK then True else hasProblems) s1 of
             (h, o2, s2) \<Rightarrow> (h, Print_Link w linkPath (line_of info src) # o2, s2)))"

definition runCheck :: "Flags \<Rightarrow> Config \<Rightarrow> fsys \<Rightarrow> error option \<times> out list \<times> fsys" where
  "runCheck fl cfg s =
     (let manager = NewManager False False (verbose_flag fl) in
      case ValidateSource manager (Source cfg) s of
        (verr, s1) \<Rightarrow>
          (case check_links manager (maxPathLen (Links cfg) 0) (Source cfg) (Links cfg)
                  (verr \<noteq> None) s1 of
             (hasProblems, o2, s2) \<Rightarrow>
               if hasProblems \<or> verr \<noteq> None
                 then (Some ConfigurationHasProblems,
                       Print_SourceStatus (Source cfg) verr # Print_LinksHeader # o2 @
                         [Print_FoundProblems], s2)
               else (None,
                     Print_SourceStatus (Source cfg) verr # Print_LinksHeader # o2 @
                       [Print_AllCorrect], s2)))"

text \<open>The link path that a printed line of \<open>runCheck\<close> reports, if it is the line
  of a link.\<close>

fun printed_link :: "out \<Rightarrow> string list" where
  "printed_link (Print_Link w l ln) = [l]"
| "printed_link _ = []"

text \<open>The target of a link as \<open>CheckLink\<close> compares it: a relative target is
  joined to the directory of the link, and the result is cleaned.\<close>

definition resolved :: "string \<Rightarrow> string \<Rightarrow> string" where
  "resolved linkPath t = Clean (if IsAbs t then t else Join [Dir linkPath, t])"

text \<open>The link that \<open>CreateLink\<close> is to leave behind: the entry at the link path is a
  symbolic link that stores the path from the directory of the link to the source.\<close>

definition stored_link :: "fsys \<Rightarrow> string \<Rightarrow> string \<Rightarrow> bool" where
  "stored_link s linkPath src =
     (case Rel (Dir linkPath) src of
        None \<Rightarrow> False
      | Some r \<Rightarrow> entry_at s linkPath = Inr (Symlink r))"

text \<open>The locations that the removals of \<open>FixLink\<close> and \<open>RemoveLink\<close> can reach: the
  location of the link path, as \<open>os.Remove\<close> resolves it, and as \<open>os.RemoveAll\<close> does
  (without trailing separators).\<close>

definition link_locations :: "fsys \<Rightarrow> string \<Rightarrow> key list" where
  "link_locations s p =
     (case locate s False p of Inl e \<Rightarrow> [] | Inr k \<Rightarrow> [k]) @
     (case locate s False (strip_slashes p) of Inl e \<Rightarrow> [] | Inr k \<Rightarrow> [k])"

section \<open>Example states\<close>

text \<open>A small tree under \<open>/r\<close>: the source \<open>CLAUDE.md\<close>, a regular file
  \<open>AGENTS.md\<close>, a link to another file, a link whose target does not exist, a correct
  link, a directory with a file below it, and a link to that directory. The working
  directory is \<open>/r\<close>. No failure is scheduled.\<close>

definition fs_example :: fsys where
  "fs_example =
     \<lparr>entries =
        [([''r''], Directory),
         ([''r'', ''CLAUDE.md''], File ''X''),
         ([''r'', ''AGENTS.md''], File ''Y''),
         ([''r'', ''other.md''], File ''Z''),
         ([''r'', ''wrong.md''], Symlink ''other.md''),
         ([''r'', ''dangling.md''], Symlink ''gone.md''),
         ([''r'', ''ok.md''], Symlink ''CLAUDE.md''),
         ([''r'', ''sub''], Directory),
         ([''r'', ''sub'', ''deep.md''], File ''D''),
         ([''r'', ''dirlink''], Symlink ''sub'')],
      cwd = [''r''], faults = []\<rparr>"

section \<open>Basic facts\<close>

lemmas path_defs = Clean_def Dir_def IsAbs_def elems_def rel_elems_def Rel_def

lemmas os_defs = os_Lstat_def os_Readlink_def os_Remove_def os_RemoveAll_def os_MkdirAll_def
  os_Symlink_def io_fault_def entry_at_def locate_def max_links_def node_at_def has_children_def
  remove_key_def remove_tree_def endsWithDot_def strip_slashes_def ModeSymlink_def
  IsRegular_def os_IsNotExist_def walk.simps mkdir_walk.simps

lemmas manager_defs = NewManager_def ValidateSource_def CheckLink_def CreateLink_def
  RemoveLink_def FixLink_def

lemma split_sep_not_Nil: "split_sep p \<noteq> []"
  by (induction p) (auto split: list.splits)

subsection \<open>What the calls of package os leave alone\<close>

lemma io_fault_frame:
  "io_fault s = (f, s') \<Longrightarrow> entries s' = entries s \<and> cwd s' = cwd s \<and> faults s' = tl (faults s)"
  by (auto simp: io_fault_def split: list.splits)

lemma locate_cong:
  "entries s' = entries s \<Longrightarrow> cwd s' = cwd s \<Longrightarrow> locate s' f p = locate s f p"
  by (simp add: locate_def)

lemma entry_at_cong:
  "entries s' = entries s \<Longrightarrow> cwd s' = cwd s \<Longrightarrow> entry_at s' p = entry_at s p"
proof -
  assume a: "entries s' = entries s" "cwd s' = cwd s"
  then have "locate s' False p = locate s False p" by (rule locate_cong)
  then show ?thesis using a by (simp add: entry_at_def split: sum.splits)
qed

lemma os_Lstat_frame:
  "os_Lstat p s = (r, s') \<Longrightarrow> entries s' = entries s \<and> cwd s' = cwd s \<and> faults s' = tl (faults s)"
  by (auto simp: os_Lstat_def split: prod.splits bool.splits dest: io_fault_frame)

lemma os_Readlink_frame:
  "os_Readlink p s = (r, s') \<Longrightarrow> entries s' = entries s \<and> cwd s' = cwd s \<and> faults s' = tl (faults s)"
  by (auto simp: os_Readlink_def split: prod.splits bool.splits sum.splits node.splits
      dest: io_fault_frame)

lemma CheckLink_frame:
  "CheckLink m l t s = (info, s') \<Longrightarrow> entries s' = entries s \<and> cwd s' = cwd s"
  by (auto simp: CheckLink_def Let_def split: prod.splits sum.splits if_splits
      dest!: os_Lstat_frame os_Readlink_frame)

lemma os_Remove_cwd: "os_Remove p s = (r, s') \<Longrightarrow> cwd s' = cwd s \<and> faults s' = tl (faults s)"
  by (auto simp: os_Remove_def split: prod.splits bool.splits if_splits sum.splits option.splits
      dest: io_fault_frame)

lemma os_RemoveAll_cwd: "os_RemoveAll p s = (r, s') \<Longrightarrow> cwd s' = cwd s \<and> faults s' = tl (faults s)"
  by (auto simp: os_RemoveAll_def split: prod.splits bool.splits if_splits sum.splits
      dest: io_fault_frame)

lemma os_MkdirAll_cwd: "os_MkdirAll p s = (r, s') \<Longrightarrow> cwd s' = cwd s \<and> faults s' = tl (faults s)"
  by (auto simp: os_MkdirAll_def split: prod.splits bool.splits if_splits
      dest: io_fault_frame)

lemma os_Symlink_cwd: "os_Symlink t p s = (r, s') \<Longrightarrow> cwd s' = cwd s \<and> faults s' = tl (faults s)"
  by (auto simp: os_Symlink_def split: prod.splits bool.splits if_splits sum.splits
      dest: io_fault_frame)

section \<open>Conflicts without force\<close>

text \<open>
  Claim C3. When \<open>CheckLink\<close> classifies the link as \<open>StatusWrongTarget\<close> or
  \<open>StatusNotSymlink\<close> and \<open>force\<close> is not set, \<open>FixLink\<close> returns an error: the
  conflict that names the link path (and, for a wrong target, the stored and the expected
  target). The table of entries after the call is the table before it, so the entry at the
  link path is as it was.
\<close>

theorem FixLink_conflict_without_force:
  assumes "\<not> force m"
    and "CheckLink m linkPath src s = (info, s1)"
    and "Status info = StatusWrongTarget \<or> Status info = StatusNotSymlink"
  shows "FixLink m linkPath src s =
           (Inl (if Status info = StatusWrongTarget
                 then WrongTargetConflict linkPath (Target info) src
                 else NotSymlinkConflict linkPath), s1)
         \<and> entries s1 = entries s \<and> cwd s1 = cwd s"
  using assms CheckLink_frame[OF assms(2)] by (auto simp: FixLink_def)

theorem FixLink_conflict_without_force_witness:
  "FixLink (NewManager False False False) ''/r/wrong.md'' ''/r/CLAUDE.md'' fs_example =
     (Inl (WrongTargetConflict ''/r/wrong.md'' ''other.md'' ''/r/CLAUDE.md''), fs_example)
   \<and> FixLink (NewManager False False False) ''/r/AGENTS.md'' ''/r/CLAUDE.md'' fs_example =
     (Inl (NotSymlinkConflict ''/r/AGENTS.md''), fs_example)"
proof -
  let ?m = "NewManager False False False"
  have f: "\<not> force ?m" by (simp add: NewManager_def)
  have c1: "CheckLink ?m ''/r/wrong.md'' ''/r/CLAUDE.md'' fs_example =
      (\<lparr>Path = ''/r/wrong.md'', Target = ''other.md'', ExpectedPath = ''/r/CLAUDE.md'',
        Status = StatusWrongTarget, Error = None\<rparr>, fs_example)"
    by (simp add: fs_example_def manager_defs os_defs path_defs)
  have c2: "CheckLink ?m ''/r/AGENTS.md'' ''/r/CLAUDE.md'' fs_example =
      (\<lparr>Path = ''/r/AGENTS.md'', Target = [], ExpectedPath = ''/r/CLAUDE.md'',
        Status = StatusNotSymlink, Error = None\<rparr>, fs_example)"
    by (simp add: fs_example_def manager_defs os_defs path_defs)
  show ?thesis
    using FixLink_conflict_without_force[OF f c1] FixLink_conflict_without_force[OF f c2]
    by simp
qed

section \<open>Removal of managed links\<close>

text \<open>
  Claim C9. \<open>RemoveLink\<close> changes the table of entries only when the manager is not in
  dry-run mode and \<open>CheckLink\<close> classifies the link as \<open>StatusOK\<close>. When the
  classification is \<open>StatusWrongTarget\<close>, \<open>StatusNotSymlink\<close> or \<open>StatusMissing\<close>, it
  returns no error and the table, hence the entry at the link path, is unchanged.
\<close>

theorem RemoveLink_only_OK:
  assumes "CheckLink m linkPath src s = (info, s1)"
    and "RemoveLink m linkPath src s = (r, s')"
  shows "(entries s' \<noteq> entries s \<longrightarrow> \<not> dryRun m \<and> Status info = StatusOK)
       \<and> (Status info \<in> {StatusWrongTarget, StatusNotSymlink, StatusMissing}
            \<longrightarrow> r = None \<and> entries s' = entries s)"
  using assms CheckLink_frame[OF assms(1)]
  by (auto simp: RemoveLink_def split: if_splits prod.splits option.splits)

theorem RemoveLink_only_OK_witness:
  "RemoveLink (NewManager False False False) ''/r/wrong.md'' ''/r/CLAUDE.md'' fs_example =
     (None, fs_example)
   \<and> entries (snd (RemoveLink (NewManager False False False) ''/r/ok.md'' ''/r/CLAUDE.md''
         fs_example)) \<noteq> entries fs_example
   \<and> Status (fst (CheckLink (NewManager False False False) ''/r/ok.md'' ''/r/CLAUDE.md''
         fs_example)) = StatusOK"
proof -
  let ?m = "NewManager False False False"
  have c1: "CheckLink ?m ''/r/wrong.md'' ''/r/CLAUDE.md'' fs_example =
      (\<lparr>Path = ''/r/wrong.md'', Target = ''other.md'', ExpectedPath = ''/r/CLAUDE.md'',
        Status = StatusWrongTarget, Error = None\<rparr>, fs_example)"
    by (simp add: fs_example_def manager_defs os_defs path_defs)
  obtain r s' where r1: "RemoveLink ?m ''/r/wrong.md'' ''/r/CLAUDE.md'' fs_example = (r, s')"
    by (cases "RemoveLink ?m ''/r/wrong.md'' ''/r/CLAUDE.md'' fs_example")
  have fr: "s' = fs_example"
    using r1 by (simp add: fs_example_def manager_defs os_defs path_defs)
  have c2: "CheckLink ?m ''/r/ok.md'' ''/r/CLAUDE.md'' fs_example =
      (\<lparr>Path = ''/r/ok.md'', Target = ''CLAUDE.md'', ExpectedPath = ''/r/CLAUDE.md'',
        Status = StatusOK, Error = None\<rparr>, fs_example)"
    by (simp add: fs_example_def manager_defs os_defs path_defs)
  have r2: "RemoveLink ?m ''/r/ok.md'' ''/r/CLAUDE.md'' fs_example =
      (None, fs_example\<lparr>entries := remove_key [''r'', ''ok.md''] (entries fs_example)\<rparr>)"
    by (simp add: fs_example_def manager_defs os_defs path_defs)
  have ne: "remove_key [''r'', ''ok.md''] (entries fs_example) \<noteq> entries fs_example"
    by (simp add: fs_example_def remove_key_def)
  show ?thesis
    using RemoveLink_only_OK[OF c1 r1] RemoveLink_only_OK[OF c2 r2] r1 fr c2 r2 ne
    by simp
qed

section \<open>Validation of the source\<close>

text \<open>
  Claim C10. \<open>ValidateSource\<close> returns an error exactly when \<open>os.Lstat\<close> of the source
  reports that it does not exist, or fails for another reason, or finds a symbolic link
  while \<open>force\<close> is not set, or finds an entry that is neither a regular file nor a
  symbolic link. With \<open>force\<close> set every symbolic link is accepted, whatever target it
  stores: only the link itself is inspected.
\<close>

theorem ValidateSource_error_iff:
  "(fst (ValidateSource m src s) \<noteq> None) =
     (fst (os_Lstat src s) = Inl ENOENT
      \<or> (\<exists>e. e \<noteq> ENOENT \<and> fst (os_Lstat src s) = Inl e)
      \<or> (\<exists>t. fst (os_Lstat src s) = Inr (Symlink t) \<and> \<not> force m)
      \<or> (\<exists>n. fst (os_Lstat src s) = Inr n \<and> \<not> IsRegular n \<and> \<not> ModeSymlink n))
   \<and> (force m \<longrightarrow>
        (\<forall>t. fst (os_Lstat src s) = Inr (Symlink t) \<longrightarrow> fst (ValidateSource m src s) = None))"
  by (auto simp: ValidateSource_def os_IsNotExist_def ModeSymlink_def IsRegular_def
      split: prod.splits sum.splits if_splits node.splits)

theorem ValidateSource_error_iff_witness:
  "fst (ValidateSource (NewManager False True False) ''/r/dangling.md'' fs_example) = None
   \<and> fst (ValidateSource (NewManager False True False) ''/r/dirlink'' fs_example) = None
   \<and> fst (ValidateSource (NewManager False False False) ''/r/dangling.md'' fs_example) \<noteq> None
   \<and> fst (ValidateSource (NewManager False True False) ''/r/sub'' fs_example) \<noteq> None
   \<and> fst (ValidateSource (NewManager False True False) ''/r/gone.md'' fs_example) \<noteq> None"
proof -
  have l1: "fst (os_Lstat ''/r/dangling.md'' fs_example) = Inr (Symlink ''gone.md'')"
    by (simp add: fs_example_def os_defs path_defs)
  have l2: "fst (os_Lstat ''/r/dirlink'' fs_example) = Inr (Symlink ''sub'')"
    by (simp add: fs_example_def os_defs path_defs)
  have l3: "fst (os_Lstat ''/r/sub'' fs_example) = Inr Directory"
    by (simp add: fs_example_def os_defs path_defs)
  have l4: "fst (os_Lstat ''/r/gone.md'' fs_example) = Inl ENOENT"
    by (simp add: fs_example_def os_defs path_defs)
  have f: "force (NewManager False True False)" "\<not> force (NewManager False False False)"
    by (simp_all add: NewManager_def)
  show ?thesis
    using ValidateSource_error_iff[of "NewManager False True False" "''/r/dangling.md''" fs_example]
      ValidateSource_error_iff[of "NewManager False True False" "''/r/dirlink''" fs_example]
      ValidateSource_error_iff[of "NewManager False False False" "''/r/dangling.md''" fs_example]
      ValidateSource_error_iff[of "NewManager False True False" "''/r/sub''" fs_example]
      ValidateSource_error_iff[of "NewManager False True False" "''/r/gone.md''" fs_example]
      l1 l2 l3 l4 f
    by (simp add: IsRegular_def ModeSymlink_def)
qed

section \<open>A failed validation of the source\<close>

lemma ValidateSource_frame:
  "ValidateSource m src s = (r, s') \<Longrightarrow> entries s' = entries s \<and> cwd s' = cwd s"
  by (auto simp: ValidateSource_def split: prod.splits sum.splits if_splits dest!: os_Lstat_frame)

lemma check_links_frame:
  "check_links m w src links h s = (h', out, s') \<Longrightarrow>
     entries s' = entries s \<and> cwd s' = cwd s \<and> concat (map printed_link out) = links"
proof (induction links arbitrary: h s h' out s')
  case Nil
  then show ?case by simp
next
  case (Cons l links)
  obtain info s1 where c: "CheckLink m l src s = (info, s1)"
    by (cases "CheckLink m l src s")
  obtain h2 o2 s2 where r: "check_links m w src links
      (if Status info \<noteq> StatusOK then True else h) s1 = (h2, o2, s2)"
    by (cases "check_links m w src links (if Status info \<noteq> StatusOK then True else h) s1")
  from Cons.prems c r have eq: "out = Print_Link w l (line_of info src) # o2" "s' = s2"
    by auto
  from Cons.IH[OF r] CheckLink_frame[OF c] eq show ?case by simp
qed

lemmas cli_defs = runSync_def runCheck_def processLink_def action_out_def line_of_def

text \<open>
  Claim C7, as the code has it. When the validation of the source fails, \<open>runSync\<close>
  returns that error at once: it prints the validation error only, and the state it leaves
  is the state right after the validation, so no link is classified or changed. \<open>runCheck\<close>
  also ends with an error and changes no entry, but it goes on after the failed validation:
  it classifies every configured link and prints one line for each, in order.
\<close>

theorem validation_failure_sync_check:
  "(ValidateSource (NewManager (dryRun_flag fl) (force_flag fl) (verbose_flag fl)) (Source cfg) s
       = (Some err, s1)
     \<longrightarrow> runSync fl cfg s = (Some err, [PrintError_SourceValidation err], s1)
         \<and> entries s1 = entries s)
   \<and> (fst (ValidateSource (NewManager False False (verbose_flag fl)) (Source cfg) s) \<noteq> None
     \<longrightarrow> (case runCheck fl cfg s of
            (r, out, s2) \<Rightarrow>
              r = Some ConfigurationHasProblems \<and> entries s2 = entries s
              \<and> concat (map printed_link out) = Links cfg))"
proof (intro conjI impI)
  assume v: "ValidateSource (NewManager (dryRun_flag fl) (force_flag fl) (verbose_flag fl))
      (Source cfg) s = (Some err, s1)"
  then show "runSync fl cfg s = (Some err, [PrintError_SourceValidation err], s1)"
    by (simp add: runSync_def)
  from ValidateSource_frame[OF v] show "entries s1 = entries s" by simp
next
  let ?m = "NewManager False False (verbose_flag fl)"
  assume v: "fst (ValidateSource ?m (Source cfg) s) \<noteq> None"
  obtain verr s1 where vs: "ValidateSource ?m (Source cfg) s = (verr, s1)"
    by (cases "ValidateSource ?m (Source cfg) s")
  with v have ne: "verr \<noteq> None" by simp
  obtain h o2 s2 where c: "check_links ?m (maxPathLen (Links cfg) 0) (Source cfg) (Links cfg)
      (verr \<noteq> None) s1 = (h, o2, s2)"
    by (cases "check_links ?m (maxPathLen (Links cfg) 0) (Source cfg) (Links cfg) (verr \<noteq> None) s1")
  from check_links_frame[OF c] ValidateSource_frame[OF vs]
  have fr: "entries s2 = entries s" "concat (map printed_link o2) = Links cfg" by simp_all
  show "case runCheck fl cfg s of
      (r, out, s2) \<Rightarrow> r = Some ConfigurationHasProblems \<and> entries s2 = entries s
        \<and> concat (map printed_link out) = Links cfg"
    using vs c ne fr by (simp add: runCheck_def)
qed

theorem validation_failure_sync_check_witness:
  "runSync \<lparr>dryRun_flag = False, force_flag = False, verbose_flag = False\<rparr>
        \<lparr>Source = ''/r/missing.md'', Links = [''/r/wrong.md'']\<rparr> fs_example =
      (Some (SourceNotExist ''/r/missing.md''),
       [PrintError_SourceValidation (SourceNotExist ''/r/missing.md'')], fs_example)
   \<and> fst (runCheck \<lparr>dryRun_flag = False, force_flag = False, verbose_flag = False\<rparr>
        \<lparr>Source = ''/r/missing.md'', Links = [''/r/wrong.md'']\<rparr> fs_example)
       = Some ConfigurationHasProblems"
proof -
  let ?fl = "\<lparr>dryRun_flag = False, force_flag = False, verbose_flag = False\<rparr>"
  let ?cfg = "\<lparr>Source = ''/r/missing.md'', Links = [''/r/wrong.md'']\<rparr>"
  have v: "ValidateSource (NewManager False False False) ''/r/missing.md'' fs_example
      = (Some (SourceNotExist ''/r/missing.md''), fs_example)"
    by (simp add: fs_example_def manager_defs os_defs path_defs)
  show ?thesis
    using validation_failure_sync_check[of ?fl ?cfg fs_example "SourceNotExist ''/r/missing.md''" fs_example] v
    by (auto split: prod.splits)
qed

text \<open>
  The claim as stated fails for \<open>check\<close>: with a source that does not exist,
  \<open>runCheck\<close> still classifies the link \<open>/r/wrong.md\<close> and reports its wrong target.
\<close>

theorem runCheck_classifies_after_failed_validation:
  "fst (ValidateSource (NewManager False False False) ''/r/missing.md'' fs_example)
     = Some (SourceNotExist ''/r/missing.md'')
   \<and> runCheck \<lparr>dryRun_flag = False, force_flag = False, verbose_flag = False\<rparr>
        \<lparr>Source = ''/r/missing.md'', Links = [''/r/wrong.md'']\<rparr> fs_example =
      (Some ConfigurationHasProblems,
       [Print_SourceStatus ''/r/missing.md'' (Some (SourceNotExist ''/r/missing.md'')),
        Print_LinksHeader,
        Print_Link 11 ''/r/wrong.md'' (Line_WrongTarget ''other.md'' ''/r/missing.md''),
        Print_FoundProblems],
       fs_example)"
  by (simp add: fs_example_def cli_defs manager_defs os_defs path_defs)

section \<open>Dry-run mode\<close>

lemma CreateLink_dry_run: "dryRun m \<Longrightarrow> CreateLink m linkPath src s = (None, s)"
  by (simp add: CreateLink_def)

lemma RemoveLink_dry_run: "dryRun m \<Longrightarrow> RemoveLink m linkPath src s = (None, s)"
  by (simp add: RemoveLink_def)

text \<open>
  Claim C2 at a failing input. \<open>CreateLink\<close> and \<open>RemoveLink\<close> return at once in
  dry-run mode, but the removals inside \<open>FixLink\<close> are not guarded: with \<open>dryRun\<close> and
  \<open>force\<close> set, \<open>FixLink\<close> on the regular file \<open>/r/AGENTS.md\<close> reports
  \<open>replace\<close> and the file is gone afterwards.
\<close>

theorem FixLink_dry_run_removes:
  "locate fs_example False ''/r/AGENTS.md'' = Inr [''r'', ''AGENTS.md'']
   \<and> node_at (entries fs_example) [''r'', ''AGENTS.md''] = Some (File ''Y'')
   \<and> fst (FixLink (NewManager True True False) ''/r/AGENTS.md'' ''/r/CLAUDE.md'' fs_example)
       = Inr ''replace''
   \<and> node_at (entries (snd (FixLink (NewManager True True False) ''/r/AGENTS.md''
         ''/r/CLAUDE.md'' fs_example))) [''r'', ''AGENTS.md''] = None
   \<and> entry_at (snd (FixLink (NewManager True True False) ''/r/AGENTS.md''
         ''/r/CLAUDE.md'' fs_example)) ''/r/AGENTS.md'' = Inl ENOENT"
  by (simp add: fs_example_def manager_defs os_defs path_defs)

section \<open>Calls without a scheduled failure\<close>

lemma quiet_two:
  "True \<notin> set (take 2 fs) \<Longrightarrow> True \<notin> set (take 1 fs) \<and> True \<notin> set (take 1 (tl fs))"
  by (cases fs; cases "tl fs") (auto simp: numeral_2_eq_2)

lemma io_fault_quiet:
  "True \<notin> set (take 1 (faults s)) \<Longrightarrow>
     \<exists>s'. io_fault s = (False, s') \<and> entries s' = entries s \<and> cwd s' = cwd s
        \<and> faults s' = tl (faults s)"
  by (cases "faults s") (auto simp: io_fault_def)

lemma os_Lstat_quiet:
  assumes "True \<notin> set (take 1 (faults s))"
  shows "\<exists>s'. os_Lstat p s = (entry_at s p, s') \<and> entries s' = entries s
      \<and> cwd s' = cwd s \<and> faults s' = tl (faults s)"
proof -
  from io_fault_quiet[OF assms] obtain s' where
    s': "io_fault s = (False, s')" "entries s' = entries s" "cwd s' = cwd s"
      "faults s' = tl (faults s)" by blast
  moreover have "entry_at s' p = entry_at s p" using s'(2,3) by (rule entry_at_cong)
  ultimately show ?thesis by (simp add: os_Lstat_def)
qed

lemma os_Readlink_quiet:
  assumes "True \<notin> set (take 1 (faults s))" "entry_at s p = Inr (Symlink t)"
  shows "\<exists>s'. os_Readlink p s = (Inr t, s') \<and> entries s' = entries s
      \<and> cwd s' = cwd s \<and> faults s' = tl (faults s)"
proof -
  from io_fault_quiet[OF assms(1)] obtain s' where
    s': "io_fault s = (False, s')" "entries s' = entries s" "cwd s' = cwd s"
      "faults s' = tl (faults s)" by blast
  moreover have "entry_at s' p = entry_at s p" using s'(2,3) by (rule entry_at_cong)
  ultimately show ?thesis using assms(2) by (simp add: os_Readlink_def)
qed

lemma CheckLink_symlink:
  assumes "entry_at s linkPath = Inr (Symlink t)"
    and "True \<notin> set (take 2 (faults s))"
  shows "\<exists>s'. CheckLink m linkPath src s =
      (\<lparr>Path = linkPath, Target = t, ExpectedPath = src,
        Status = (if resolved linkPath t = Clean src then StatusOK else StatusWrongTarget),
        Error = None\<rparr>, s')
      \<and> entries s' = entries s \<and> cwd s' = cwd s \<and> faults s' = tl (tl (faults s))"
proof -
  from quiet_two[OF assms(2)] have q: "True \<notin> set (take 1 (faults s))"
    "True \<notin> set (take 1 (tl (faults s)))" by simp_all
  from os_Lstat_quiet[OF q(1), of linkPath] assms(1) obtain s1 where
    s1: "os_Lstat linkPath s = (Inr (Symlink t), s1)" "entries s1 = entries s" "cwd s1 = cwd s"
      "faults s1 = tl (faults s)" by auto
  have l1: "entry_at s1 linkPath = Inr (Symlink t)"
    using assms(1) entry_at_cong[OF s1(2,3)] by simp
  from q(2) s1 have q1: "True \<notin> set (take 1 (faults s1))" by simp
  from os_Readlink_quiet[OF q1 l1] obtain s2 where
    s2: "os_Readlink linkPath s1 = (Inr t, s2)" "entries s2 = entries s1" "cwd s2 = cwd s1"
      "faults s2 = tl (faults s1)" by auto
  show ?thesis
    unfolding CheckLink_def resolved_def using s1 s2
    by (simp add: ModeSymlink_def Let_def del: Join.simps)
qed

section \<open>Links whose target does not exist\<close>

lemma CheckLink_Broken_iff:
  "(Status (fst (CheckLink m linkPath src s)) = StatusBroken) =
     ((\<exists>e. e \<noteq> ENOENT \<and> fst (os_Lstat linkPath s) = Inl e)
      \<or> (\<exists>n s1 e. os_Lstat linkPath s = (Inr n, s1) \<and> ModeSymlink n
            \<and> fst (os_Readlink linkPath s1) = Inl e))"
  by (auto simp: CheckLink_def Let_def os_IsNotExist_def
      split: prod.splits sum.splits if_splits simp del: Join.simps)

lemma FixLink_fix_broken_iff:
  "(fst (FixLink m linkPath src s) = Inr ''fix broken'') =
     (Status (fst (CheckLink m linkPath src s)) = StatusBroken
      \<and> (\<exists>s2. os_Remove linkPath (snd (CheckLink m linkPath src s)) = (None, s2)
            \<and> CreateLink m linkPath src s2 = (None, snd (FixLink m linkPath src s))))"
proof -
  obtain info s1 where c: "CheckLink m linkPath src s = (info, s1)"
    by (cases "CheckLink m linkPath src s")
  obtain r2 s2 where r: "os_Remove linkPath s1 = (r2, s2)" by (cases "os_Remove linkPath s1")
  obtain r3 s3 where k: "CreateLink m linkPath src s2 = (r3, s3)"
    by (cases "CreateLink m linkPath src s2")
  obtain q2 t2 where ra: "os_RemoveAll linkPath s1 = (q2, t2)"
    by (cases "os_RemoveAll linkPath s1")
  obtain q3 t3 where ka: "CreateLink m linkPath src t2 = (q3, t3)"
    by (cases "CreateLink m linkPath src t2")
  obtain q4 t4 where km: "CreateLink m linkPath src s1 = (q4, t4)"
    by (cases "CreateLink m linkPath src s1")
  show ?thesis
    unfolding FixLink_def c prod.case fst_conv snd_conv
    using r k ra ka km
    by (cases "Status info"; cases r2; cases r3; cases q2; cases q3; cases q4) auto
qed

lemma FixLink_Broken_action:
  "Status (fst (CheckLink m linkPath src s)) = StatusBroken \<Longrightarrow>
   fst (FixLink m linkPath src s) = Inr a \<Longrightarrow> a = ''fix broken''"
  by (auto simp: FixLink_def split: prod.splits option.splits)

section \<open>Adding an entry where a path ends\<close>

lemma node_at_cons_other: "k' \<noteq> k \<Longrightarrow> node_at ((k, v) # es) k' = node_at es k'"
  by (simp add: node_at_def)

lemma node_at_cons_None: "node_at es k = None \<Longrightarrow> node_at ((k, v) # es) k = Some v"
  by (auto simp: node_at_def split: if_splits)

lemma node_at_present: "node_at es k = None \<Longrightarrow> node_at es k' = Some n \<Longrightarrow>
    node_at ((k, v) # es) k' = Some n"
  by (cases "k' = k") (auto simp: node_at_cons_other)

lemma walk_add:
  "walk fuel es follow cur cs = Inr k \<Longrightarrow> \<not> follow \<Longrightarrow> node_at es k = None \<Longrightarrow>
     walk fuel ((k, Symlink r) # es) follow cur cs = Inr k"
proof (induction fuel es follow cur cs rule: walk.induct)
  case (1 fuel es follow cur)
  then show ?case by (simp add: walk.simps)
next
  case (2 fuel es follow cur c cs)
  let ?es = "(k, Symlink r) # es"
  note w = "2.prems"(1)[unfolded walk.simps(2)[of fuel es follow cur c cs]]
  from w have d: "node_at es cur = Some Directory"
    by (auto split: option.splits node.splits)
  then have d': "node_at ?es cur = Some Directory" using "2.prems"(3) by (rule node_at_present[rotated])
  show ?case
  proof (cases "c = [] \<or> c = ''.''")
    case True
    with w d have "walk fuel es follow cur cs = Inr k" by simp
    from "2.IH"(1)[OF d refl True this "2.prems"(2,3)] True d'
    show ?thesis by (subst walk.simps(2)) simp
  next
    case nd: False
    show ?thesis
    proof (cases "c = ''..''")
      case True
      with w d nd have "walk fuel es follow (butlast cur) cs = Inr k" by simp
      from "2.IH"(2)[OF d refl nd True this "2.prems"(2,3)] True nd d'
    show ?thesis by (subst walk.simps(2)) simp
    next
      case ndd: False
      show ?thesis
      proof (cases "node_at es (cur @ [c])")
        case None
        with w d nd ndd have kk: "cs = []" "k = cur @ [c]" by (auto split: if_splits)
        then have "node_at ?es (cur @ [c]) = Some (Symlink r)"
          using None by (simp add: node_at_cons_None)
        then show ?thesis using kk d' nd ndd "2.prems"(2)
          by (subst walk.simps(2)) simp
      next
        case (Some n)
        then have n': "node_at ?es (cur @ [c]) = Some n"
          using "2.prems"(3) by (rule node_at_present[rotated])
        show ?thesis
        proof (cases n)
          case (File x)
          with w d nd ndd Some have "cs = []" "k = cur @ [c]" by (auto split: if_splits)
          with "2.prems"(3) Some show ?thesis by (simp add: node_at_def split: if_splits)
        next
          case Directory
          with w d nd ndd Some have "walk fuel es follow (cur @ [c]) cs = Inr k" by simp
          from "2.IH"(3)[OF d refl nd ndd Some Directory this "2.prems"(2,3)] d' nd ndd n' Directory
    show ?thesis by (subst walk.simps(2)) simp
        next
          case (Symlink t)
          show ?thesis
          proof (cases "cs = [] \<and> \<not> follow")
            case True
            with w d nd ndd Some Symlink have "k = cur @ [c]" by simp
            with "2.prems"(3) Some show ?thesis by (simp add: node_at_def split: if_splits)
          next
            case False
            with w d nd ndd Some Symlink have f: "fuel \<noteq> 0" "t \<noteq> []"
              and ww: "walk (fuel - 1) es follow (if IsAbs t then [] else cur) (split_sep t @ cs) = Inr k"
              by (auto split: if_splits)
            from "2.IH"(4)[OF d refl nd ndd Some Symlink False f ww "2.prems"(2,3)]
              d' nd ndd n' Symlink False f "2.prems"(2)
    show ?thesis by (subst walk.simps(2)) simp
          qed
        next
          case Special
          with w d nd ndd Some have "cs = []" "k = cur @ [c]" by (auto split: if_splits)
          with "2.prems"(3) Some show ?thesis by (simp add: node_at_def split: if_splits)
        qed
      qed
    qed
  qed
qed

lemma os_Symlink_success:
  assumes "os_Symlink t p s = (None, s')"
  shows "entry_at s' p = Inr (Symlink t) \<and> cwd s' = cwd s
     \<and> (\<exists>k. locate s False p = Inr k \<and> node_at (entries s) k = None
            \<and> entries s' = (k, Symlink t) # entries s)"
proof -
  obtain f s0 where io: "io_fault s = (f, s0)" by (cases "io_fault s")
  from io_fault_frame[OF io] have fr: "entries s0 = entries s" "cwd s0 = cwd s" by simp_all
  have lc: "locate s0 False p = locate s False p" using fr by (rule locate_cong)
  from assms io obtain k where k: "locate s False p = Inr k" "node_at (entries s) k = None"
    "s' = s0\<lparr>entries := (k, Symlink t) # entries s\<rparr>" "\<not> f"
    by (auto simp: os_Symlink_def lc fr split: if_splits sum.splits bool.splits)
  have pne: "p \<noteq> []" using k(1) by (auto simp: locate_def)
  have w: "walk max_links (entries s) False (if IsAbs p then [] else cwd s) (split_sep p) = Inr k"
    using k(1) pne by (simp add: locate_def)
  have "locate s' False p = Inr k"
    using walk_add[OF w _ k(2), of t] pne k(3) fr by (auto simp: locate_def)
  moreover have "node_at (entries s') k = Some (Symlink t)"
    using k(2,3) by (simp add: node_at_cons_None)
  ultimately have "entry_at s' p = Inr (Symlink t)" by (simp add: entry_at_def)
  then show ?thesis using k fr by auto
qed

lemma CreateLink_success:
  assumes "\<not> dryRun m" "CreateLink m l src s = (None, s')"
  shows "stored_link s' l src"
proof -
  obtain r1 s1 where m1: "os_MkdirAll (Dir l) s = (r1, s1)" by (cases "os_MkdirAll (Dir l) s")
  from assms m1 have r1: "r1 = None" by (auto simp: CreateLink_def split: option.splits)
  from assms m1 r1 obtain rt where rt: "Rel (Dir l) src = Some rt"
    by (auto simp: CreateLink_def split: option.splits)
  obtain r2 s2 where m2: "os_Symlink rt l s1 = (r2, s2)" by (cases "os_Symlink rt l s1")
  from assms m1 r1 rt m2 have "r2 = None" "s' = s2"
    by (auto simp: CreateLink_def split: option.splits)
  with os_Symlink_success[of rt l s1 s2] m2 rt show ?thesis by (simp add: stored_link_def)
qed

section \<open>Entries away from the link\<close>

lemma map_of_filter_key:
  "map_of (filter (\<lambda>(k, n). P k) es) k' = (if P k' then map_of es k' else None)"
  by (induction es) auto

lemma node_at_remove_key:
  "k' \<noteq> k \<Longrightarrow> node_at (remove_key k es) k' = node_at es k'"
  using map_of_filter_key[of "\<lambda>x. x \<noteq> k" es k'] by (simp add: node_at_def remove_key_def)

lemma node_at_remove_tree:
  "\<not> prefix k k' \<Longrightarrow> node_at (remove_tree k es) k' = node_at es k'"
  using map_of_filter_key[of "\<lambda>x. \<not> prefix k x" es k'] by (simp add: node_at_def remove_tree_def)

lemma node_at_snoc_keep:
  "node_at es k = Some n \<Longrightarrow> node_at (es @ [x]) k = Some n"
  by (auto simp: node_at_def map_add_def split: if_splits)

lemma mkdir_walk_keeps:
  "mkdir_walk es cur cs = (r, es') \<Longrightarrow> node_at es k = Some n \<Longrightarrow> node_at es' k = Some n"
proof (induction es cur cs arbitrary: r es' rule: mkdir_walk.induct)
  case (1 es cur)
  then show ?case by (simp add: mkdir_walk.simps)
next
  case (2 es cur c cs)
  note w = "2.prems"(1)[unfolded mkdir_walk.simps(2)[of es cur c cs]]
  show ?case
  proof (cases "node_at es cur = Some Directory")
    case False
    with w "2.prems"(2) show ?thesis by (auto split: option.splits node.splits)
  next
    case d: True
    show ?thesis
    proof (cases "c = [] \<or> c = ''.''")
      case True
      with w d have "mkdir_walk es cur cs = (r, es')" by simp
      from "2.IH"(1)[OF d refl True this "2.prems"(2)] show ?thesis .
    next
      case nd: False
      show ?thesis
      proof (cases "c = ''..''")
        case True
        with w d nd have "mkdir_walk es (butlast cur) cs = (r, es')" by simp
        from "2.IH"(2)[OF d refl nd True this "2.prems"(2)] show ?thesis .
      next
        case ndd: False
        show ?thesis
        proof (cases "node_at es (cur @ [c])")
          case None
          with w d nd ndd have "mkdir_walk (es @ [(cur @ [c], Directory)]) (cur @ [c]) cs = (r, es')"
            by simp
          from "2.IH"(3)[OF d refl nd ndd None this node_at_snoc_keep[OF "2.prems"(2)]]
          show ?thesis .
        next
          case (Some x)
          show ?thesis
          proof (cases x)
            case Directory
            with w d nd ndd Some have "mkdir_walk es (cur @ [c]) cs = (r, es')" by simp
            from "2.IH"(4)[OF d refl nd ndd Some Directory this "2.prems"(2)] show ?thesis .
          next
            case (Symlink t)
            show ?thesis
            proof (cases "\<exists>k'. t \<noteq> [] \<and> walk max_links es True (if IsAbs t then [] else cur) (split_sep t) = Inr k'
                \<and> node_at es k' = Some Directory")
              case False
              with w d nd ndd Some Symlink have "es' = es"
                by (auto split: if_splits sum.splits option.splits node.splits)
              with "2.prems"(2) show ?thesis by simp
            next
              case True
              then obtain k' where k': "t \<noteq> []"
                "walk max_links es True (if IsAbs t then [] else cur) (split_sep t) = Inr k'"
                "node_at es k' = Some Directory" by blast
              with w d nd ndd Some Symlink have "mkdir_walk es k' cs = (r, es')" by simp
              from "2.IH"(5)[OF d refl nd ndd Some Symlink k'(1,2,3) refl this "2.prems"(2)]
              show ?thesis .
            qed
          next
            case (File c')
            with w d nd ndd Some "2.prems"(2) show ?thesis by auto
          next
            case Special
            with w d nd ndd Some "2.prems"(2) show ?thesis by auto
          qed
        qed
      qed
    qed
  qed
qed

lemma os_MkdirAll_keeps:
  assumes "os_MkdirAll p s = (r, s')" "node_at (entries s) k = Some n"
  shows "node_at (entries s') k = Some n"
proof -
  obtain f s0 where io: "io_fault s = (f, s0)" by (cases "io_fault s")
  from io_fault_frame[OF io] have fr: "entries s0 = entries s" "cwd s0 = cwd s" by simp_all
  show ?thesis
  proof (cases "f \<or> p = []")
    case True
    with assms io fr show ?thesis by (auto simp: os_MkdirAll_def split: if_splits bool.splits)
  next
    case False
    obtain r' es' where w: "mkdir_walk (entries s0) (if IsAbs p then [] else cwd s0) (split_sep p)
        = (r', es')"
      by (cases "mkdir_walk (entries s0) (if IsAbs p then [] else cwd s0) (split_sep p)")
    with assms(1) io False have "entries s' = es'" by (auto simp: os_MkdirAll_def)
    with mkdir_walk_keeps[OF w] assms(2) fr show ?thesis by simp
  qed
qed

lemma os_Symlink_keeps:
  assumes "os_Symlink t p s = (r, s')" "node_at (entries s) k = Some n"
  shows "node_at (entries s') k = Some n"
proof (cases r)
  case None
  with assms(1) os_Symlink_success[of t p s s'] obtain k' where
    "node_at (entries s) k' = None" "entries s' = (k', Symlink t) # entries s" by auto
  with assms(2) show ?thesis by (simp add: node_at_present)
next
  case (Some e)
  with assms(1) have "entries s' = entries s"
    by (auto simp: os_Symlink_def split: prod.splits bool.splits if_splits sum.splits
        dest: io_fault_frame)
  with assms(2) show ?thesis by simp
qed

lemma CreateLink_keeps:
  assumes "CreateLink m l src s = (r, s')" "node_at (entries s) k = Some n"
  shows "node_at (entries s') k = Some n"
proof (cases "dryRun m")
  case True
  with assms show ?thesis by (simp add: CreateLink_def)
next
  case False
  obtain r1 s1 where m1: "os_MkdirAll (Dir l) s = (r1, s1)" by (cases "os_MkdirAll (Dir l) s")
  have n1: "node_at (entries s1) k = Some n" using os_MkdirAll_keeps[OF m1 assms(2)] .
  show ?thesis
  proof (cases "\<exists>rt. r1 = None \<and> Rel (Dir l) src = Some rt")
    case nr: False
    with assms(1) False m1 have "s' = s1" by (auto simp: CreateLink_def split: option.splits)
    with n1 show ?thesis by simp
  next
    case True
    then obtain rt where rt: "r1 = None" "Rel (Dir l) src = Some rt" by blast
    obtain r2 s2 where m2: "os_Symlink rt l s1 = (r2, s2)" by (cases "os_Symlink rt l s1")
    with assms(1) False m1 rt have "s' = s2" by (auto simp: CreateLink_def split: option.splits)
    with os_Symlink_keeps[OF m2 n1] show ?thesis by simp
  qed
qed

lemma os_Remove_keeps:
  assumes "os_Remove p s = (r, s')" "\<forall>L. locate s False p = Inr L \<longrightarrow> L \<noteq> k"
  shows "node_at (entries s') k = node_at (entries s) k"
proof -
  obtain f s0 where io: "io_fault s = (f, s0)" by (cases "io_fault s")
  from io_fault_frame[OF io] have fr: "entries s0 = entries s" "cwd s0 = cwd s" by simp_all
  have lc: "locate s0 False p = locate s False p" using fr by (rule locate_cong)
  show ?thesis
  proof (cases "\<exists>L. s' = s0\<lparr>entries := remove_key L (entries s0)\<rparr> \<and> locate s False p = Inr L")
    case True
    with assms(2) fr show ?thesis by (auto simp: node_at_remove_key)
  next
    case False
    with assms(1) io lc have "entries s' = entries s0"
      by (auto simp: os_Remove_def split: bool.splits if_splits sum.splits option.splits)
    with fr show ?thesis by simp
  qed
qed

lemma os_RemoveAll_keeps:
  assumes "os_RemoveAll p s = (r, s')"
    and "\<forall>L. locate s False (strip_slashes p) = Inr L \<longrightarrow> \<not> prefix L k"
  shows "node_at (entries s') k = node_at (entries s) k"
proof -
  obtain f s0 where io: "io_fault s = (f, s0)" by (cases "io_fault s")
  from io_fault_frame[OF io] have fr: "entries s0 = entries s" "cwd s0 = cwd s" by simp_all
  have lc: "locate s0 False (strip_slashes p) = locate s False (strip_slashes p)"
    using fr by (rule locate_cong)
  show ?thesis
  proof (cases "locate s False (strip_slashes p)")
    case (Inl e)
    with assms(1) io lc have "entries s' = entries s0"
      by (auto simp: os_RemoveAll_def split: bool.splits if_splits)
    with fr show ?thesis by simp
  next
    case (Inr L)
    with assms(2) have np: "\<not> prefix L k" by simp
    then have "L \<noteq> []" by auto
    with assms(1) io lc Inr have "entries s' = entries s0 \<or> entries s' = remove_tree L (entries s0)"
      by (auto simp: os_RemoveAll_def split: bool.splits if_splits)
    with fr np show ?thesis by (auto simp: node_at_remove_tree)
  qed
qed

lemma link_locations_D:
  assumes "\<forall>L\<in>set (link_locations s p). \<not> prefix L k"
  shows "\<forall>L. locate s False p = Inr L \<longrightarrow> L \<noteq> k"
    and "\<forall>L. locate s False (strip_slashes p) = Inr L \<longrightarrow> \<not> prefix L k"
  using assms by (auto simp: link_locations_def split: sum.splits)

lemma link_locations_cong:
  "entries s' = entries s \<Longrightarrow> cwd s' = cwd s \<Longrightarrow> link_locations s' p = link_locations s p"
  by (simp add: link_locations_def locate_cong[of s' s])

lemma create_after_keeps:
  assumes "(case CreateLink m l src s2 of
              (Some err, s3) \<Rightarrow> (Inl err, s3) | (None, s3) \<Rightarrow> (Inr a, s3)) = (res, s')"
    and "node_at (entries s2) k = Some n"
  shows "node_at (entries s') k = Some n"
proof -
  obtain r3 s3 where c: "CreateLink m l src s2 = (r3, s3)" by (cases "CreateLink m l src s2")
  with assms(1) have "s' = s3" by (cases r3) auto
  with CreateLink_keeps[OF c assms(2)] show ?thesis by simp
qed

lemma remove_create_keeps:
  assumes "(case rm of
              (Some err, s2) \<Rightarrow> (Inl (E err), s2)
            | (None, s2) \<Rightarrow>
                (case CreateLink m l src s2 of
                   (Some err, s3) \<Rightarrow> (Inl err, s3) | (None, s3) \<Rightarrow> (Inr a, s3))) = (res, s')"
    and "node_at (entries (snd rm)) k = Some n"
  shows "node_at (entries s') k = Some n"
proof -
  obtain r2 s2 where rm: "rm = (r2, s2)" by (cases rm)
  show ?thesis
  proof (cases r2)
    case (Some e)
    with assms rm show ?thesis by simp
  next
    case None
    with assms(1) rm have "(case CreateLink m l src s2 of
        (Some err, s3) \<Rightarrow> (Inl err, s3) | (None, s3) \<Rightarrow> (Inr a, s3)) = (res, s')" by simp
    from create_after_keeps[OF this] assms(2) rm show ?thesis by simp
  qed
qed

lemma FixLink_keeps:
  assumes "FixLink m l src s = (res, s')"
    and "node_at (entries s) k = Some n"
    and "\<forall>L\<in>set (link_locations s l). \<not> prefix L k"
  shows "node_at (entries s') k = Some n"
proof -
  obtain info s1 where c: "CheckLink m l src s = (info, s1)" by (cases "CheckLink m l src s")
  from CheckLink_frame[OF c] have fr: "entries s1 = entries s" "cwd s1 = cwd s" by simp_all
  have n1: "node_at (entries s1) k = Some n" using assms(2) fr by simp
  have "\<forall>L\<in>set (link_locations s1 l). \<not> prefix L k"
    using assms(3) link_locations_cong[OF fr] by simp
  note ll = link_locations_D[OF this]
  have rm: "node_at (entries (snd (os_Remove l s1))) k = Some n"
    using os_Remove_keeps[of l s1 "fst (os_Remove l s1)" "snd (os_Remove l s1)" k] ll(1) n1
    by simp
  have rma: "node_at (entries (snd (os_RemoveAll l s1))) k = Some n"
    using os_RemoveAll_keeps[of l s1 "fst (os_RemoveAll l s1)" "snd (os_RemoveAll l s1)" k]
      ll(2) n1 by simp
  note u = assms(1)[unfolded FixLink_def c prod.case]
  show ?thesis
  proof (cases "Status info")
    case StatusOK
    with u n1 show ?thesis by auto
  next
    case StatusMissing
    with u have "(case CreateLink m l src s1 of
        (Some err, s3) \<Rightarrow> (Inl err, s3) | (None, s3) \<Rightarrow> (Inr ''create'', s3)) = (res, s')"
      by simp
    from create_after_keeps[OF this n1] show ?thesis .
  next
    case StatusWrongTarget
    show ?thesis
    proof (cases "force m")
      case False
      with u StatusWrongTarget n1 show ?thesis by auto
    next
      case True
      with u StatusWrongTarget have "(case os_Remove l s1 of
              (Some err, s2) \<Rightarrow> (Inl (RemoveWrongFailed l err), s2)
            | (None, s2) \<Rightarrow>
                (case CreateLink m l src s2 of
                   (Some err, s3) \<Rightarrow> (Inl err, s3) | (None, s3) \<Rightarrow> (Inr ''fix'', s3))) = (res, s')"
        by simp
      from remove_create_keeps[OF this rm] show ?thesis .
    qed
  next
    case StatusNotSymlink
    show ?thesis
    proof (cases "force m")
      case False
      with u StatusNotSymlink n1 show ?thesis by auto
    next
      case True
      with u StatusNotSymlink have "(case os_RemoveAll l s1 of
              (Some err, s2) \<Rightarrow> (Inl (RemoveExistingFailed l err), s2)
            | (None, s2) \<Rightarrow>
                (case CreateLink m l src s2 of
                   (Some err, s3) \<Rightarrow> (Inl err, s3) | (None, s3) \<Rightarrow> (Inr ''replace'', s3))) = (res, s')"
        by simp
      from remove_create_keeps[OF this rma] show ?thesis .
    qed
  next
    case StatusBroken
    with u have "(case os_Remove l s1 of
              (Some err, s2) \<Rightarrow> (Inl (RemoveBrokenFailed l err), s2)
            | (None, s2) \<Rightarrow>
                (case CreateLink m l src s2 of
                   (Some err, s3) \<Rightarrow> (Inl err, s3) | (None, s3) \<Rightarrow> (Inr ''fix broken'', s3))) = (res, s')"
      by simp
    from remove_create_keeps[OF this rm] show ?thesis .
  qed
qed

lemma RemoveLink_keeps:
  assumes "RemoveLink m l src s = (r, s')"
    and "node_at (entries s) k = Some n"
    and "\<forall>L\<in>set (link_locations s l). \<not> prefix L k"
  shows "node_at (entries s') k = Some n"
proof (cases "dryRun m")
  case True
  with assms show ?thesis by (simp add: RemoveLink_def)
next
  case False
  obtain info s1 where c: "CheckLink m l src s = (info, s1)" by (cases "CheckLink m l src s")
  from CheckLink_frame[OF c] have fr: "entries s1 = entries s" "cwd s1 = cwd s" by simp_all
  have n1: "node_at (entries s1) k = Some n" using assms(2) fr by simp
  have "\<forall>L\<in>set (link_locations s1 l). \<not> prefix L k"
    using assms(3) link_locations_cong[OF fr] by simp
  note ll = link_locations_D[OF this]
  note u = assms(1)[unfolded RemoveLink_def c prod.case]
  show ?thesis
  proof (cases "Status info = StatusOK")
    case nok: False
    with u False n1 show ?thesis by auto
  next
    case True
    obtain r2 s2 where rm: "os_Remove l s1 = (r2, s2)" by (cases "os_Remove l s1")
    with u True False have "s' = s2" by (cases r2) auto
    with os_Remove_keeps[OF rm ll(1)] n1 show ?thesis by simp
  qed
qed

text \<open>
  Claim C6, as the code has it. \<open>CheckLink\<close> never looks at the entry a link points
  to. A symbolic link that \<open>os.Lstat\<close> and \<open>os.Readlink\<close> can read is classified by
  its stored target alone: \<open>StatusOK\<close> when the target resolves lexically to the
  expected source, \<open>StatusWrongTarget\<close> otherwise, whether the target exists or not; for
  a wrong target \<open>FixLink\<close> without \<open>force\<close> fails with the conflict and changes nothing.
  The status is \<open>StatusBroken\<close> exactly when \<open>os.Lstat\<close> fails for a reason other than
  non-existence or \<open>os.Readlink\<close> fails. \<open>FixLink\<close> returns \<open>fix broken\<close> exactly
  when the status is \<open>StatusBroken\<close> and both the removal of the entry at the link path
  by \<open>os.Remove\<close> and \<open>CreateLink\<close> after it have succeeded, whatever \<open>force\<close> is;
  outside dry-run mode the link path then holds the link to the source. With status
  \<open>StatusBroken\<close> no other action is ever reported.
\<close>

theorem symlink_classified_by_target:
  "(entry_at s linkPath = Inr (Symlink t) \<and> True \<notin> set (take 2 (faults s))
    \<longrightarrow> Status (fst (CheckLink m linkPath src s)) =
          (if resolved linkPath t = Clean src then StatusOK else StatusWrongTarget)
        \<and> (resolved linkPath t \<noteq> Clean src \<and> \<not> force m
            \<longrightarrow> fst (FixLink m linkPath src s) = Inl (WrongTargetConflict linkPath t src)
                \<and> entries (snd (FixLink m linkPath src s)) = entries s))
   \<and> ((Status (fst (CheckLink m linkPath src s)) = StatusBroken) =
        ((\<exists>e. e \<noteq> ENOENT \<and> fst (os_Lstat linkPath s) = Inl e)
         \<or> (\<exists>n s1 e. os_Lstat linkPath s = (Inr n, s1) \<and> ModeSymlink n
               \<and> fst (os_Readlink linkPath s1) = Inl e)))
   \<and> ((fst (FixLink m linkPath src s) = Inr ''fix broken'') =
        (Status (fst (CheckLink m linkPath src s)) = StatusBroken
         \<and> (\<exists>s2. os_Remove linkPath (snd (CheckLink m linkPath src s)) = (None, s2)
               \<and> CreateLink m linkPath src s2 = (None, snd (FixLink m linkPath src s)))))
   \<and> (fst (FixLink m linkPath src s) = Inr ''fix broken'' \<and> \<not> dryRun m
        \<longrightarrow> stored_link (snd (FixLink m linkPath src s)) linkPath src)
   \<and> (Status (fst (CheckLink m linkPath src s)) = StatusBroken
        \<and> fst (FixLink m linkPath src s) = Inr a \<longrightarrow> a = ''fix broken'')"
proof (intro conjI impI)
  assume a: "entry_at s linkPath = Inr (Symlink t) \<and> True \<notin> set (take 2 (faults s))"
  then obtain s' where c: "CheckLink m linkPath src s =
      (\<lparr>Path = linkPath, Target = t, ExpectedPath = src,
        Status = (if resolved linkPath t = Clean src then StatusOK else StatusWrongTarget),
        Error = None\<rparr>, s')" "entries s' = entries s"
    using CheckLink_symlink[of s linkPath t m src] by blast
  show "Status (fst (CheckLink m linkPath src s)) =
          (if resolved linkPath t = Clean src then StatusOK else StatusWrongTarget)"
    using c by simp
  assume "resolved linkPath t \<noteq> Clean src \<and> \<not> force m"
  then show "fst (FixLink m linkPath src s) = Inl (WrongTargetConflict linkPath t src)"
    "entries (snd (FixLink m linkPath src s)) = entries s"
    using c by (simp_all add: FixLink_def)
next
  show "(Status (fst (CheckLink m linkPath src s)) = StatusBroken) =
        ((\<exists>e. e \<noteq> ENOENT \<and> fst (os_Lstat linkPath s) = Inl e)
         \<or> (\<exists>n s1 e. os_Lstat linkPath s = (Inr n, s1) \<and> ModeSymlink n
               \<and> fst (os_Readlink linkPath s1) = Inl e))"
    by (rule CheckLink_Broken_iff)
next
  show "(fst (FixLink m linkPath src s) = Inr ''fix broken'') =
        (Status (fst (CheckLink m linkPath src s)) = StatusBroken
         \<and> (\<exists>s2. os_Remove linkPath (snd (CheckLink m linkPath src s)) = (None, s2)
               \<and> CreateLink m linkPath src s2 = (None, snd (FixLink m linkPath src s))))"
    by (rule FixLink_fix_broken_iff)
next
  assume "fst (FixLink m linkPath src s) = Inr ''fix broken'' \<and> \<not> dryRun m"
  then show "stored_link (snd (FixLink m linkPath src s)) linkPath src"
    using FixLink_fix_broken_iff[of m linkPath src s] CreateLink_success by blast
next
  assume "Status (fst (CheckLink m linkPath src s)) = StatusBroken
        \<and> fst (FixLink m linkPath src s) = Inr a"
  then show "a = ''fix broken''" using FixLink_Broken_action by blast
qed

theorem symlink_classified_by_target_witness:
  "entry_at fs_example ''/r/gone.md'' = Inl ENOENT
   \<and> Status (fst (CheckLink (NewManager False False False) ''/r/dangling.md'' ''/r/CLAUDE.md''
        fs_example)) = StatusWrongTarget
   \<and> fst (FixLink (NewManager False False False) ''/r/dangling.md'' ''/r/CLAUDE.md'' fs_example)
       = Inl (WrongTargetConflict ''/r/dangling.md'' ''gone.md'' ''/r/CLAUDE.md'')
   \<and> Status (fst (CheckLink (NewManager False False False) ''/r/wrong.md'' ''/r/CLAUDE.md''
        (fs_example\<lparr>faults := [False, True]\<rparr>))) = StatusBroken
   \<and> fst (FixLink (NewManager False False False) ''/r/wrong.md'' ''/r/CLAUDE.md''
        (fs_example\<lparr>faults := [False, True]\<rparr>)) = Inr ''fix broken''
   \<and> stored_link (snd (FixLink (NewManager False False False) ''/r/wrong.md'' ''/r/CLAUDE.md''
        (fs_example\<lparr>faults := [False, True]\<rparr>))) ''/r/wrong.md'' ''/r/CLAUDE.md''"
proof -
  let ?m = "NewManager False False False"
  have g: "entry_at fs_example ''/r/gone.md'' = Inl ENOENT"
    by (simp add: fs_example_def os_defs path_defs)
  have h: "entry_at fs_example ''/r/dangling.md'' = Inr (Symlink ''gone.md'')
      \<and> True \<notin> set (take 2 (faults fs_example))"
    by (simp add: fs_example_def os_defs path_defs)
  have r: "resolved ''/r/dangling.md'' ''gone.md'' \<noteq> Clean ''/r/CLAUDE.md''"
    by (simp add: resolved_def path_defs)
  have f: "\<not> force ?m" "\<not> dryRun ?m" by (simp_all add: NewManager_def)
  have b: "fst (FixLink ?m ''/r/wrong.md'' ''/r/CLAUDE.md''
        (fs_example\<lparr>faults := [False, True]\<rparr>)) = Inr ''fix broken''"
    by (simp add: fs_example_def manager_defs os_defs path_defs)
  show ?thesis
    using symlink_classified_by_target[of fs_example "''/r/dangling.md''" "''gone.md''" ?m
        "''/r/CLAUDE.md''" "''fix broken''"]
      symlink_classified_by_target[of "fs_example\<lparr>faults := [False, True]\<rparr>" "''/r/wrong.md''"
        "''other.md''" ?m "''/r/CLAUDE.md''" "''fix broken''"] g h r f b
    by simp
qed

text \<open>
  The claim as stated fails: \<open>/r/dangling.md\<close> stores the target \<open>gone.md\<close>, which
  does not exist; \<open>CheckLink\<close> classifies it as \<open>StatusWrongTarget\<close>, and \<open>FixLink\<close>
  without \<open>force\<close> returns the conflict and leaves the state as it is.
\<close>

theorem dangling_link_is_WrongTarget:
  "entry_at fs_example ''/r/gone.md'' = Inl ENOENT
   \<and> fst (os_Readlink ''/r/dangling.md'' fs_example) = Inr ''gone.md''
   \<and> Status (fst (CheckLink (NewManager False False False) ''/r/dangling.md'' ''/r/CLAUDE.md''
        fs_example)) = StatusWrongTarget
   \<and> FixLink (NewManager False False False) ''/r/dangling.md'' ''/r/CLAUDE.md'' fs_example
       = (Inl (WrongTargetConflict ''/r/dangling.md'' ''gone.md'' ''/r/CLAUDE.md''), fs_example)"
  by (simp add: fs_example_def manager_defs os_defs path_defs)

section \<open>The entry of the source\<close>

text \<open>
  Claim C1, as the code has it. Nothing in \<open>FixLink\<close> or \<open>RemoveLink\<close> compares the link
  path with the source path. What the two functions remove is the entry that the link path
  names, once the symbolic links in the directories of the path are followed, and, under
  \<open>force\<close>, everything below it; what they create, they create where nothing was. So for
  every flag setting and every state, an entry that exists at a location which is neither
  the location of the link path nor below it is the same after \<open>FixLink\<close> and after
  \<open>RemoveLink\<close>: the source file is safe when its location is apart from the link's.
\<close>

theorem existing_entries_kept:
  assumes "node_at (entries s) k = Some n"
    and "\<forall>L\<in>set (link_locations s linkPath). \<not> prefix L k"
  shows "node_at (entries (snd (FixLink m linkPath src s))) k = Some n
       \<and> node_at (entries (snd (RemoveLink m linkPath src s))) k = Some n"
  using FixLink_keeps[OF _ assms, of m src "fst (FixLink m linkPath src s)"
      "snd (FixLink m linkPath src s)"]
    RemoveLink_keeps[OF _ assms, of m src "fst (RemoveLink m linkPath src s)"
      "snd (RemoveLink m linkPath src s)"]
  by simp

theorem existing_entries_kept_witness:
  "locate fs_example False ''/r/CLAUDE.md'' = Inr [''r'', ''CLAUDE.md'']
   \<and> fst (FixLink (NewManager False True False) ''/r/AGENTS.md'' ''/r/CLAUDE.md'' fs_example)
     = Inr ''replace''
   \<and> node_at (entries (snd (FixLink (NewManager False True False) ''/r/AGENTS.md''
        ''/r/CLAUDE.md'' fs_example))) [''r'', ''CLAUDE.md''] = Some (File ''X'')
   \<and> node_at (entries (snd (RemoveLink (NewManager False True False) ''/r/AGENTS.md''
        ''/r/CLAUDE.md'' fs_example))) [''r'', ''CLAUDE.md''] = Some (File ''X'')"
proof -
  have l: "locate fs_example False ''/r/CLAUDE.md'' = Inr [''r'', ''CLAUDE.md'']"
    by (simp add: fs_example_def os_defs path_defs)
  have n: "node_at (entries fs_example) [''r'', ''CLAUDE.md''] = Some (File ''X'')"
    by (simp add: fs_example_def os_defs)
  have ll: "link_locations fs_example ''/r/AGENTS.md'' = [[''r'', ''AGENTS.md''], [''r'', ''AGENTS.md'']]"
    by (simp add: link_locations_def fs_example_def os_defs path_defs)
  have h: "\<forall>L\<in>set (link_locations fs_example ''/r/AGENTS.md''). \<not> prefix L [''r'', ''CLAUDE.md'']"
    by (simp add: ll)
  have a: "fst (FixLink (NewManager False True False) ''/r/AGENTS.md'' ''/r/CLAUDE.md'' fs_example)
     = Inr ''replace''"
    by (simp add: fs_example_def manager_defs os_defs path_defs)
  show ?thesis
    using existing_entries_kept[OF n h, of "NewManager False True False" "''/r/CLAUDE.md''"] l a
    by simp
qed

text \<open>
  The claim as stated fails when a configured link path equals the source path: with
  \<open>force\<close> set, \<open>FixLink\<close> classifies the source file as \<open>StatusNotSymlink\<close>,
  removes it and puts a symbolic link to itself in its place. It fails in the same way for
  a link path that differs from the source path but reaches the same file through a
  symbolic link to its directory.
\<close>

theorem FixLink_force_replaces_source:
  "entry_at fs_example ''/r/CLAUDE.md'' = Inr (File ''X'')
   \<and> fst (FixLink (NewManager False True False) ''/r/CLAUDE.md'' ''/r/CLAUDE.md'' fs_example)
       = Inr ''replace''
   \<and> entry_at (snd (FixLink (NewManager False True False) ''/r/CLAUDE.md''
         ''/r/CLAUDE.md'' fs_example)) ''/r/CLAUDE.md'' = Inr (Symlink ''CLAUDE.md'')
   \<and> entry_at fs_example ''/r/sub/deep.md'' = Inr (File ''D'')
   \<and> fst (FixLink (NewManager False True False) ''/r/dirlink/deep.md'' ''/r/sub/deep.md''
         fs_example) = Inr ''replace''
   \<and> entry_at (snd (FixLink (NewManager False True False) ''/r/dirlink/deep.md''
         ''/r/sub/deep.md'' fs_example)) ''/r/sub/deep.md'' = Inr (Symlink ''../sub/deep.md'')"
  by (simp add: fs_example_def manager_defs os_defs path_defs)

end
